theory Spec2Isabelle
  imports Complex_Main "HOL-Library.Sublist"
begin

section \<open>The metadata parser (rme\_parser.py)\<close>

text \<open>
  The parser reads the file with \<^verbatim>\<open>readlines\<close>, which cuts the decoded text after
  every newline character and keeps the newline at the end of each line. Characters are
  modelled as \<^typ>\<open>char\<close>, that is as code points below 256; the text is the one
  Python hands over after its newline translation.
\<close>

definition NL :: char where
  "NL = CHR 0x0A"

fun readlines :: "string \<Rightarrow> string list" where
  "readlines [] = []"
| "readlines (c # cs) =
     (if c = NL then [c] # readlines cs
      else (case readlines cs of [] \<Rightarrow> [[c]] | l # ls \<Rightarrow> (c # l) # ls))"

text \<open>\<^verbatim>\<open>str.strip(chars)\<close> removes the given characters from both ends.\<close>

definition strip_chars :: "(char \<Rightarrow> bool) \<Rightarrow> string \<Rightarrow> string" where
  "strip_chars p s = rev (dropWhile p (rev (dropWhile p s)))"

text \<open>
  \<^verbatim>\<open>str.strip()\<close> without argument removes whitespace, the characters for which
  \<^verbatim>\<open>str.isspace\<close> holds: below 256 these are the code points 9 to 13, 28 to 32,
  133 and 160.
\<close>

definition isspace :: "char \<Rightarrow> bool" where
  "isspace c = (let n = (of_char c :: nat) in
     (9 \<le> n \<and> n \<le> 13) \<or> (28 \<le> n \<and> n \<le> 32) \<or> n = 133 \<or> n = 160)"

definition strip :: "string \<Rightarrow> string" where
  "strip s = strip_chars isspace s"

definition startswith :: "string \<Rightarrow> string \<Rightarrow> bool" where
  "startswith s p = prefix p s"

text \<open>\<^verbatim>\<open>line.split(sep=",")\<close>: purely syntactic, the empty line gives one empty field.\<close>

fun split_sep :: "char \<Rightarrow> string \<Rightarrow> string list" where
  "split_sep sep [] = [[]]"
| "split_sep sep (c # cs) =
     (if c = sep then [] # split_sep sep cs
      else (case split_sep sep cs of [] \<Rightarrow> [[c]] | f # fs \<Rightarrow> (c # f) # fs))"

definition PARSE1 :: string where
  "PARSE1 = ''*--*''"

definition PARSE2 :: string where
  "PARSE2 = ''*-*''"

text \<open>
  The state of the loop in \<^verbatim>\<open>parser\<close>: the two attributes of the object
  (\<^verbatim>\<open>header\<close>, \<^verbatim>\<open>infos\<close>) and the four local variables.
\<close>

record pstate =
  header :: "string list"
  infos :: "string list list list"
  common :: "string list"
  data :: "string list list"
  level :: nat
  first_line :: bool

definition init_state :: pstate where
  "init_state = \<lparr>header = [], infos = [], common = [], data = [],
                 level = 0, first_line = False\<rparr>"

text \<open>The renaming loop over \<^verbatim>\<open>enumerate(self.header)\<close>.\<close>

definition rename_feed :: "string list \<Rightarrow> string list" where
  "rename_feed h = map (\<lambda>w. if w = ''feed'' then ''diet'' else w) h"

text \<open>The part of the loop body guarded by \<^verbatim>\<open>level == 1\<close>, after the marker test.\<close>

definition common_content :: "pstate \<Rightarrow> string \<Rightarrow> pstate" where
  "common_content st line =
     (if first_line st then st\<lparr>header := split_sep CHR '','' line, first_line := False\<rparr>
      else st\<lparr>common := split_sep CHR '','' line\<rparr>)"

text \<open>The part of the loop body guarded by \<^verbatim>\<open>level == 2\<close>, after the marker test.\<close>

definition group_content :: "pstate \<Rightarrow> string \<Rightarrow> pstate" where
  "group_content st line =
     (if first_line st
      then st\<lparr>header := rename_feed (header st @ split_sep CHR '','' line),
              first_line := False\<rparr>
      else st\<lparr>data := data st @ [common st @ split_sep CHR '','' line]\<rparr>)"

text \<open>The two tests at the end of the loop body, which open a block.\<close>

definition open_blocks :: "pstate \<Rightarrow> string \<Rightarrow> pstate" where
  "open_blocks st line =
     (let st1 = (if startswith (strip line) PARSE1
                 then st\<lparr>level := 1, first_line := True\<rparr> else st)
      in if startswith (strip line) PARSE2
         then st1\<lparr>level := 2, first_line := True\<rparr> else st1)"

text \<open>
  One iteration of the loop. Each \<^verbatim>\<open>continue\<close> of the source is a branch that returns
  at once.
\<close>

definition step :: "pstate \<Rightarrow> string \<Rightarrow> pstate" where
  "step st raw =
     (let line = strip_chars (\<lambda>c. c = NL) raw in
      if level st = 1 \<and> startswith (strip line) PARSE1 then st\<lparr>level := 0\<rparr>
      else
        let st1 = (if level st = 1 then common_content st line else st) in
        if level st1 = 2 \<and> startswith (strip line) PARSE2
        then st1\<lparr>infos := infos st1 @ [data st1], data := [], level := 0\<rparr>
        else
          let st2 = (if level st1 = 2 then group_content st1 line else st1)
          in open_blocks st2 line)"

definition parser_loop :: "string list \<Rightarrow> pstate" where
  "parser_loop ls = foldl step init_state ls"

text \<open>The result of \<^verbatim>\<open>parser\<close>: the header and the groups it leaves in the object.\<close>

definition parser :: "string \<Rightarrow> string list \<times> string list list list" where
  "parser text = (let st = parser_loop (readlines text) in (header st, infos st))"

subsection \<open>Metadata files as sequences of blocks\<close>

text \<open>
  A well-formed metadata file, as the specification words it: blocks that do not nest,
  each opened and closed by its own marker on a line of its own, a header line first and
  data rows after it, every data row with as many comma-separated fields as the header
  line of its block; lines outside the blocks are free text. No content line contains a
  newline or starts, once trimmed, with a marker.
\<close>

datatype block =
    Common string "string list"
  | Group string "string list"
  | Outside string

definition unlines :: "string list \<Rightarrow> string" where
  "unlines ls = concat (map (\<lambda>l. l @ [NL]) ls)"

fun block_lines :: "block \<Rightarrow> string list" where
  "block_lines (Common h rs) = PARSE1 # h # rs @ [PARSE1]"
| "block_lines (Group h rs) = PARSE2 # h # rs @ [PARSE2]"
| "block_lines (Outside l) = [l]"

definition render :: "block list \<Rightarrow> string" where
  "render bs = unlines (concat (map block_lines bs))"

definition content_line :: "string \<Rightarrow> bool" where
  "content_line l =
     (NL \<notin> set l \<and> \<not> startswith (strip l) PARSE1 \<and> \<not> startswith (strip l) PARSE2)"

definition field_count :: "string \<Rightarrow> nat" where
  "field_count l = length (split_sep CHR '','' l)"

fun wf_block :: "block \<Rightarrow> bool" where
  "wf_block (Common h rs) =
     (content_line h \<and> list_all (\<lambda>r. content_line r \<and> field_count r = field_count h) rs)"
| "wf_block (Group h rs) =
     (content_line h \<and> list_all (\<lambda>r. content_line r \<and> field_count r = field_count h) rs)"
| "wf_block (Outside l) = content_line l"

fun common_with_row :: "block \<Rightarrow> bool" where
  "common_with_row (Common h rs) = (rs \<noteq> [])"
| "common_with_row (Group h rs) = False"
| "common_with_row (Outside l) = True"

fun is_outside :: "block \<Rightarrow> bool" where
  "is_outside (Outside l) = True"
| "is_outside _ = False"

text \<open>The header has as many entries as every row of every parsed group has columns.\<close>

definition header_matches_rows :: "string \<Rightarrow> bool" where
  "header_matches_rows text =
     (case parser text of (h, gs) \<Rightarrow> list_all (list_all (\<lambda>r. length r = length h)) gs)"

text \<open>
  What one whole block does to the parser state when it starts outside any block; the
  lemma \<open>block_steps\<close> below derives it from \<^const>\<open>step\<close>.
\<close>

fun block_effect :: "pstate \<Rightarrow> block \<Rightarrow> pstate" where
  "block_effect st (Common h rs) =
     st\<lparr>header := split_sep CHR '','' h,
        common := (if rs = [] then common st else split_sep CHR '','' (last rs)),
        level := 0, first_line := False\<rparr>"
| "block_effect st (Group h rs) =
     st\<lparr>header := rename_feed (header st @ split_sep CHR '','' h),
        infos := infos st @ [data st @ map (\<lambda>r. common st @ split_sep CHR '','' r) rs],
        data := [], level := 0, first_line := False\<rparr>"
| "block_effect st (Outside l) = st"

definition aligned :: "pstate \<Rightarrow> bool" where
  "aligned st = (level st = 0 \<and> length (common st) = length (header st)
                 \<and> data st = [] \<and> infos st = [])"

text \<open>A line that starts, once its newline and the surrounding whitespace are removed,
  with the marker \<open>m\<close>.\<close>

definition starts_marker :: "string \<Rightarrow> string \<Rightarrow> bool" where
  "starts_marker m raw = startswith (strip (strip_chars (\<lambda>c. c = NL) raw)) m"

text \<open>
  A line is kept out of the content of the state when the step leaves the header and the
  common row as they are and appends no data row: the rows collected so far stay, or
  move as one finished group to \<^const>\<open>infos\<close> when the line closes a GROUP block.
\<close>

definition content_untouched :: "pstate \<Rightarrow> pstate \<Rightarrow> bool" where
  "content_untouched st st' =
     (header st' = header st \<and> common st' = common st \<and>
      ((infos st' = infos st \<and> data st' = data st) \<or>
       (infos st' = infos st @ [data st] \<and> data st' = [])))"

section \<open>The signal pipeline and the table merge (KeemPlot.py)\<close>

datatype error = IndexError | KeyError | ValueError | ZeroDivisionError | FileNotFoundError

text \<open>
  Indexing a sequence with a Python integer: a negative index counts from the end, an
  index out of range raises \<^verbatim>\<open>IndexError\<close>. The first axis of a NumPy array
  is indexed the same way.
\<close>

definition getitem :: "'a list \<Rightarrow> int \<Rightarrow> error + 'a" where
  "getitem xs i =
     (if 0 \<le> i \<and> i < int (length xs) then Inr (xs ! nat i)
      else if - int (length xs) \<le> i \<and> i < 0 then Inr (xs ! nat (int (length xs) + i))
      else Inl IndexError)"

text \<open>\<^verbatim>\<open>self.dbdata = self.metadata.infos[group_number-1]\<close> in the constructor.\<close>

definition select_group :: "'a list \<Rightarrow> int \<Rightarrow> error + 'a" where
  "select_group groups group_number = getitem groups (group_number - 1)"

text \<open>
  The numeric fields of a \<^verbatim>\<open>KeemPlot\<close> object. Arithmetic is exact, on
  \<^typ>\<open>real\<close>: the rounding of the floating-point operations is not modelled.
  The constructor divides the threshold by \<^verbatim>\<open>max_value\<close>, which raises
  \<^verbatim>\<open>ZeroDivisionError\<close> when that is zero.
\<close>

record keemplot =
  max_value :: real
  final_len :: nat
  threshold :: real

definition init_params :: "real \<Rightarrow> real \<Rightarrow> nat \<Rightarrow> error + keemplot" where
  "init_params maxv thr flen =
     (if maxv = 0 then Inl ZeroDivisionError
      else Inr \<lparr>max_value = maxv, final_len = flen, threshold = thr / maxv\<rparr>)"

text \<open>\<^verbatim>\<open>np.linspace(start, stop, num)\<close> and \<^verbatim>\<open>np.arange(n)\<close>.\<close>

definition linspace :: "real \<Rightarrow> real \<Rightarrow> nat \<Rightarrow> real list" where
  "linspace start stop num =
     (if num = 1 then [start]
      else map (\<lambda>i. start + real i * ((stop - start) / real (num - 1))) [0..<num])"

definition arange :: "nat \<Rightarrow> real list" where
  "arange n = map real [0..<n]"

text \<open>
  \<^verbatim>\<open>np.interp(x, xp, fp)\<close> at one point \<open>x\<close>, for increasing sample points
  \<open>xp\<close>: the first value to the left of the samples, the last value to the right,
  the sample value at a sample point, and the chord between the two neighbours
  elsewhere. \<open>j\<close> is the index of the last sample point not above \<open>x\<close>.
\<close>

definition interp_at :: "real list \<Rightarrow> real list \<Rightarrow> real \<Rightarrow> real" where
  "interp_at xp fp x =
     (if x < hd xp then hd fp
      else if last xp < x then last fp
      else let j = length (takeWhile (\<lambda>p. p \<le> x) xp) - 1 in
        if j = length xp - 1 then fp ! j
        else if xp ! j = x then fp ! j
        else (fp ! (j + 1) - fp ! j) / (xp ! (j + 1) - xp ! j) * (x - xp ! j) + fp ! j)"

definition interp :: "real list \<Rightarrow> real list \<Rightarrow> real list \<Rightarrow> error + real list" where
  "interp xs xp fp =
     (if xp = [] \<or> length fp \<noteq> length xp then Inl ValueError
      else Inr (map (interp_at xp fp) xs))"

definition interp1d :: "real list \<Rightarrow> nat \<Rightarrow> error + real list" where
  "interp1d array new_len =
     (let la = length array
      in interp (linspace 0 (real la - 1) new_len) (arange la) array)"

text \<open>
  \<^verbatim>\<open>image.max(axis=0)\<close> on a two-dimensional array given as the list of its
  rows (all of one length): the maximum of every column. An array without rows has no
  maximum.
\<close>

definition col_max :: "nat list list \<Rightarrow> error + nat list" where
  "col_max img =
     (case img of [] \<Rightarrow> Inl ValueError
      | r # rs \<Rightarrow> Inr (foldl (\<lambda>acc row. map2 max acc row) r rs))"

definition create_barcode :: "real list \<Rightarrow> real list list" where
  "create_barcode arr =
     (let height = (if length arr \<ge> 20 then length arr div 20 else 1)
      in replicate height arr)"

text \<open>
  One iteration of the loop of \<^verbatim>\<open>_process\<close>: the raw normalised vector, the
  resampled and thresholded one, the resampled one, and the barcode.
\<close>

definition process_image ::
  "keemplot \<Rightarrow> nat list list \<Rightarrow> error + (real list \<times> real list \<times> real list \<times> real list list)"
where
  "process_image self img =
     (case col_max img of Inl e \<Rightarrow> Inl e
      | Inr m \<Rightarrow>
        let arr = map (\<lambda>v. real v / max_value self) m in
        (case interp1d arr (final_len self) of Inl e \<Rightarrow> Inl e
         | Inr arr_int \<Rightarrow>
           let thr = map (\<lambda>v. if v < threshold self then 0 else v) arr_int
           in Inr (arr, thr, arr_int, create_barcode thr)))"

fun process ::
  "keemplot \<Rightarrow> nat list list list \<Rightarrow>
   error + (real list list \<times> real list list \<times> real list list \<times> real list list list)"
where
  "process self [] = Inr ([], [], [], [])"
| "process self (img # imgs) =
     (case process_image self img of Inl e \<Rightarrow> Inl e
      | Inr (ni, fd, ut, bc) \<Rightarrow>
        (case process self imgs of Inl e \<Rightarrow> Inl e
         | Inr (nis, fds, uts, bcs) \<Rightarrow> Inr (ni # nis, fd # fds, ut # uts, bc # bcs)))"

subsection \<open>Tables\<close>

text \<open>
  A pandas \<^verbatim>\<open>DataFrame\<close>: the column labels and the rows, each row with its index
  label and one cell per column. A cell is \<open>None\<close> when the value is missing (NaN).
  Cell values are abstract; identifiers are compared by equality, and two missing
  identifiers count as equal, as \<^verbatim>\<open>drop_duplicates\<close> has it.
\<close>

record 'v frame =
  columns :: "string list"
  rows :: "(nat \<times> 'v option list) list"

definition wf_frame :: "'v frame \<Rightarrow> bool" where
  "wf_frame f = (distinct (columns f) \<and>
                 list_all (\<lambda>r. length (snd r) = length (columns f)) (rows f))"

text \<open>The cell of a row under a column label; missing when the table has no such column.\<close>

definition cell :: "string list \<Rightarrow> 'v option list \<Rightarrow> string \<Rightarrow> 'v option" where
  "cell cols r c = (case map_of (zip cols r) c of None \<Rightarrow> None | Some x \<Rightarrow> x)"

definition reindex :: "string list \<Rightarrow> string list \<Rightarrow> 'v option list \<Rightarrow> 'v option list" where
  "reindex cols' cols r = map (cell cols r) cols'"

text \<open>
  \<^verbatim>\<open>pd.concat([old, new], axis=0, ignore_index=True, join="outer")\<close>: the columns
  of \<open>old\<close> followed by the columns only \<open>new\<close> has, the rows of \<open>old\<close> followed by
  the rows of \<open>new\<close>, missing cells where a table lacks a column, the index numbered
  from zero. This is what pandas does for tables with unique column labels
  (\<^const>\<open>wf_frame\<close>); on repeated labels it can raise instead, which the definition
  does not follow, so every statement about the merge assumes \<^const>\<open>wf_frame\<close>.
\<close>

definition union_columns :: "string list \<Rightarrow> string list \<Rightarrow> string list" where
  "union_columns a b = a @ filter (\<lambda>c. c \<notin> set a) b"

definition concat_frames :: "'v frame \<Rightarrow> 'v frame \<Rightarrow> 'v frame" where
  "concat_frames old new =
     (let cols = union_columns (columns old) (columns new)
      in \<lparr>columns = cols,
          rows = enumerate 0 (map (\<lambda>r. reindex cols (columns old) (snd r)) (rows old)
                            @ map (\<lambda>r. reindex cols (columns new) (snd r)) (rows new))\<rparr>)"

text \<open>Keeping, of the elements with the same key, only the last one.\<close>

fun keep_last :: "('a \<Rightarrow> 'k) \<Rightarrow> 'a list \<Rightarrow> 'a list" where
  "keep_last key [] = []"
| "keep_last key (x # xs) =
     (if key x \<in> set (map key xs) then keep_last key xs else x # keep_last key xs)"

text \<open>The property \<^verbatim>\<open>DataFrame.empty\<close>: one of the two axes has length zero.\<close>

definition empty_frame :: "'v frame \<Rightarrow> bool" where
  "empty_frame f = (rows f = [] \<or> columns f = [])"

text \<open>\<^verbatim>\<open>drop_duplicates(subset=[c], keep="last")\<close>: an empty table is returned as
  it is, before the column is looked at; otherwise a column that does not exist raises
  \<^verbatim>\<open>KeyError\<close>. The surviving rows keep their index labels.\<close>

definition drop_duplicates :: "string \<Rightarrow> 'v frame \<Rightarrow> error + 'v frame" where
  "drop_duplicates c f =
     (if empty_frame f then Inr f
      else if c \<notin> set (columns f) then Inl KeyError
      else Inr (f\<lparr>rows := keep_last (\<lambda>r. cell (columns f) (snd r) c) (rows f)\<rparr>))"

text \<open>\<^verbatim>\<open>reset_index(drop=True)\<close>.\<close>

definition reset_index :: "'v frame \<Rightarrow> 'v frame" where
  "reset_index f = f\<lparr>rows := enumerate 0 (map snd (rows f))\<rparr>"

text \<open>Lines 157 to 159 of \<^verbatim>\<open>update_db\<close>: the merged table.\<close>

definition merge_frames :: "'v frame \<Rightarrow> 'v frame \<Rightarrow> error + 'v frame" where
  "merge_frames old df =
     (case drop_duplicates ''ID'' (concat_frames old df) of
        Inl e \<Rightarrow> Inl e
      | Inr new \<Rightarrow> Inr (reset_index new))"

text \<open>
  \<^verbatim>\<open>update_db\<close> on a store of pickled tables, from paths to tables: reading a
  path that holds no table fails, and the merged table replaces the one read only
  when the merge has succeeded.
\<close>

definition update_db ::
  "'v frame \<Rightarrow> string \<Rightarrow> (string \<rightharpoonup> 'v frame) \<Rightarrow> error + (string \<rightharpoonup> 'v frame)"
where
  "update_db df path store =
     (case store path of None \<Rightarrow> Inl FileNotFoundError
      | Some old \<Rightarrow>
        (case merge_frames old df of Inl e \<Rightarrow> Inl e
         | Inr new \<Rightarrow> Inr (store(path \<mapsto> new))))"

text \<open>The identifiers of a table, row by row.\<close>

definition row_id :: "string list \<Rightarrow> 'v option list \<Rightarrow> 'v option" where
  "row_id cols r = cell cols r ''ID''"

definition cells :: "'v frame \<Rightarrow> 'v option list list" where
  "cells f = map snd (rows f)"

definition ids :: "'v frame \<Rightarrow> 'v option list" where
  "ids f = map (row_id (columns f)) (cells f)"

text \<open>
  The cells of the merged table, written from the two inputs: the rows of the existing
  table whose identifier recurs neither later in that table nor in the new table, then
  the rows of the new table whose identifier does not recur later in it, all of them
  laid out on the merged columns. The lemma \<open>merge_frames_rows\<close> below derives it
  from \<^const>\<open>merge_frames\<close>.
\<close>

definition merged_cells :: "'v frame \<Rightarrow> 'v frame \<Rightarrow> 'v option list list" where
  "merged_cells old df =
     (let cols = union_columns (columns old) (columns df) in
      map (reindex cols (columns old))
        (filter (\<lambda>r. row_id (columns old) r \<notin> set (ids df))
           (keep_last (row_id (columns old)) (cells old)))
      @ map (reindex cols (columns df)) (keep_last (row_id (columns df)) (cells df)))"

text \<open>
  The store after a call of \<^verbatim>\<open>update_db\<close>: the call writes as its last
  statement, so a call that raises leaves the store as it was.
\<close>

definition persisted_after ::
  "'v frame \<Rightarrow> string \<Rightarrow> (string \<rightharpoonup> 'v frame) \<Rightarrow> (string \<rightharpoonup> 'v frame)"
where
  "persisted_after df path store =
     (case update_db df path store of Inl e \<Rightarrow> store | Inr s \<Rightarrow> s)"

subsection \<open>Example tables\<close>

text \<open>Small tables with natural numbers as cell values, used to instantiate the theorems.\<close>

definition ex_old :: "nat frame" where
  "ex_old = \<lparr>columns = [''ID'', ''sex''],
             rows = [(0, [Some 1, Some 10]), (1, [Some 2, Some 20])]\<rparr>"

definition ex_new :: "nat frame" where
  "ex_new = \<lparr>columns = [''ID'', ''diet''],
             rows = [(0, [Some 1, Some 11]), (1, [Some 3, Some 31])]\<rparr>"

definition ex_noid :: "nat frame" where
  "ex_noid = \<lparr>columns = [''sex''], rows = [(0, [Some 10])]\<rparr>"



definition ex_bare :: "nat frame" where
  "ex_bare = \<lparr>columns = [], rows = []\<rparr>"

definition ex_bare_row :: "nat frame" where
  "ex_bare_row = \<lparr>columns = [], rows = [(0, [])]\<rparr>"

section \<open>Properties of the parser\<close>

lemma markers_disjoint: "\<not> (starts_marker PARSE1 raw \<and> starts_marker PARSE2 raw)"
  using prefix_same_cases [of PARSE1 "strip (strip_chars (\<lambda>c. c = NL) raw)" PARSE2]
  by (auto simp: starts_marker_def startswith_def PARSE1_def PARSE2_def)

lemma readlines_line: "NL \<notin> set l \<Longrightarrow> readlines (l @ NL # t) = (l @ [NL]) # readlines t"
  by (induction l) auto

lemma readlines_unlines:
  "\<forall>l\<in>set ls. NL \<notin> set l \<Longrightarrow> readlines (unlines ls) = map (\<lambda>l. l @ [NL]) ls"
  by (induction ls) (auto simp: unlines_def readlines_line)

lemma strip_nl_line: "NL \<notin> set l \<Longrightarrow> strip_chars (\<lambda>c. c = NL) (l @ [NL]) = l"
proof (cases l rule: rev_cases)
  case Nil
  then show ?thesis by (simp add: strip_chars_def)
next
  case (snoc ys y)
  assume "NL \<notin> set l"
  with snoc have "dropWhile (\<lambda>c. c = NL) (l @ [NL]) = l @ [NL]"
    by (cases ys) auto
  with snoc \<open>NL \<notin> set l\<close> show ?thesis by (auto simp: strip_chars_def)
qed

lemma strip_PARSE [simp]: "strip PARSE1 = PARSE1" "strip PARSE2 = PARSE2"
  by (simp_all add: strip_def strip_chars_def PARSE1_def PARSE2_def isspace_def)

lemma NL_PARSE [simp]: "NL \<notin> set PARSE1" "NL \<notin> set PARSE2"
  by (simp_all add: PARSE1_def PARSE2_def NL_def)

lemma PARSE_cross [simp]: "\<not> startswith PARSE1 PARSE2" "\<not> startswith PARSE2 PARSE1"
  "startswith PARSE1 PARSE1" "startswith PARSE2 PARSE2"
  by (simp_all add: PARSE1_def PARSE2_def startswith_def)

lemma step_outside: "level st = 0 \<Longrightarrow> content_line l \<Longrightarrow> step st (l @ [NL]) = st"
  by (simp add: step_def content_line_def strip_nl_line open_blocks_def)

lemma step_open1: "level st = 0 \<Longrightarrow> step st (PARSE1 @ [NL]) = st\<lparr>level := 1, first_line := True\<rparr>"
  by (simp add: step_def strip_nl_line open_blocks_def)

lemma step_open2: "level st = 0 \<Longrightarrow> step st (PARSE2 @ [NL]) = st\<lparr>level := 2, first_line := True\<rparr>"
  by (simp add: step_def strip_nl_line open_blocks_def)

lemma step_close1: "level st = 1 \<Longrightarrow> step st (PARSE1 @ [NL]) = st\<lparr>level := 0\<rparr>"
  by (simp add: step_def strip_nl_line)

lemma step_close2: "level st = 2 \<Longrightarrow> step st (PARSE2 @ [NL])
    = st\<lparr>infos := infos st @ [data st], data := [], level := 0\<rparr>"
  by (simp add: step_def strip_nl_line)

lemma step_common: "level st = 1 \<Longrightarrow> content_line l \<Longrightarrow>
   step st (l @ [NL]) = common_content st l"
  by (simp add: step_def content_line_def strip_nl_line open_blocks_def common_content_def)

lemma step_group: "level st = 2 \<Longrightarrow> content_line l \<Longrightarrow>
   step st (l @ [NL]) = group_content st l"
  by (simp add: step_def content_line_def strip_nl_line open_blocks_def group_content_def)

lemma common_rows:
  "level st = 1 \<Longrightarrow> \<not> first_line st \<Longrightarrow> \<forall>r\<in>set rs. content_line r \<Longrightarrow>
   foldl step st (map (\<lambda>l. l @ [NL]) rs)
     = (if rs = [] then st else st\<lparr>common := split_sep CHR '','' (last rs)\<rparr>)"
proof (induction rs arbitrary: st)
  case Nil
  then show ?case by simp
next
  case (Cons r rs)
  let ?st = "st\<lparr>common := split_sep CHR '','' r\<rparr>"
  from Cons.prems have s: "step st (r @ [NL]) = ?st"
    by (simp add: step_common common_content_def)
  have "foldl step ?st (map (\<lambda>l. l @ [NL]) rs)
     = (if rs = [] then ?st else ?st\<lparr>common := split_sep CHR '','' (last rs)\<rparr>)"
    using Cons.prems by (intro Cons.IH) auto
  with s show ?case by simp
qed

lemma group_rows:
  "level st = 2 \<Longrightarrow> \<not> first_line st \<Longrightarrow> \<forall>r\<in>set rs. content_line r \<Longrightarrow>
   foldl step st (map (\<lambda>l. l @ [NL]) rs)
     = st\<lparr>data := data st @ map (\<lambda>r. common st @ split_sep CHR '','' r) rs\<rparr>"
proof (induction rs arbitrary: st)
  case Nil
  then show ?case by simp
next
  case (Cons r rs)
  let ?st = "st\<lparr>data := data st @ [common st @ split_sep CHR '','' r]\<rparr>"
  from Cons.prems have s: "step st (r @ [NL]) = ?st"
    by (simp add: step_group group_content_def)
  have "foldl step ?st (map (\<lambda>l. l @ [NL]) rs)
     = ?st\<lparr>data := data ?st @ map (\<lambda>r. common ?st @ split_sep CHR '','' r) rs\<rparr>"
    using Cons.prems by (intro Cons.IH) auto
  with s show ?case by simp
qed

lemma block_effect_level [simp]: "level st = 0 \<Longrightarrow> level (block_effect st b) = 0"
  by (cases b) auto

lemma block_steps:
  assumes "level st = 0" "wf_block b"
  shows "foldl step st (map (\<lambda>l. l @ [NL]) (block_lines b)) = block_effect st b"
proof (cases b)
  case (Common h rs)
  let ?s1 = "st\<lparr>level := 1, first_line := True\<rparr>"
  let ?s2 = "?s1\<lparr>header := split_sep CHR '','' h, first_line := False\<rparr>"
  have 1: "step st (PARSE1 @ [NL]) = ?s1" using assms by (simp add: step_open1)
  have 2: "step ?s1 (h @ [NL]) = ?s2" using assms Common
    by (simp add: step_common common_content_def)
  have 3: "foldl step ?s2 (map (\<lambda>l. l @ [NL]) rs)
     = (if rs = [] then ?s2 else ?s2\<lparr>common := split_sep CHR '','' (last rs)\<rparr>)"
    using assms Common by (intro common_rows) (auto simp: list_all_iff)
  show ?thesis using Common 1 2 3 by (auto simp: step_close1)
next
  case (Group h rs)
  let ?s1 = "st\<lparr>level := 2, first_line := True\<rparr>"
  let ?s2 = "?s1\<lparr>header := rename_feed (header st @ split_sep CHR '','' h), first_line := False\<rparr>"
  have 1: "step st (PARSE2 @ [NL]) = ?s1" using assms by (simp add: step_open2)
  have 2: "step ?s1 (h @ [NL]) = ?s2" using assms Group
    by (simp add: step_group group_content_def)
  have 3: "foldl step ?s2 (map (\<lambda>l. l @ [NL]) rs)
     = ?s2\<lparr>data := data ?s2 @ map (\<lambda>r. common ?s2 @ split_sep CHR '','' r) rs\<rparr>"
    using assms Group by (intro group_rows) (auto simp: list_all_iff)
  show ?thesis using Group 1 2 3 by (auto simp: step_close2)
next
  case (Outside l)
  then show ?thesis using assms by (simp add: step_outside)
qed

lemma blocks_steps:
  "level st = 0 \<Longrightarrow> \<forall>b\<in>set bs. wf_block b \<Longrightarrow>
   foldl step st (map (\<lambda>l. l @ [NL]) (concat (map block_lines bs))) = foldl block_effect st bs"
  by (induction bs arbitrary: st) (auto simp: block_steps)

lemma block_lines_NL: "wf_block b \<Longrightarrow> l \<in> set (block_lines b) \<Longrightarrow> NL \<notin> set l"
  by (cases b) (auto simp: content_line_def list_all_iff)

lemma parser_render:
  assumes "\<forall>b\<in>set bs. wf_block b"
  shows "parser (render bs) = (header (foldl block_effect init_state bs),
                               infos (foldl block_effect init_state bs))"
proof -
  have "\<forall>l\<in>set (concat (map block_lines bs)). NL \<notin> set l"
    using assms by (auto dest: block_lines_NL)
  then have "readlines (render bs) = map (\<lambda>l. l @ [NL]) (concat (map block_lines bs))"
    unfolding render_def by (rule readlines_unlines)
  moreover have "level init_state = 0" by (simp add: init_state_def)
  ultimately show ?thesis using assms
    by (simp add: parser_def parser_loop_def blocks_steps Let_def)
qed

lemma aligned_block:
  "aligned st \<Longrightarrow> wf_block b \<Longrightarrow> common_with_row b \<Longrightarrow> aligned (block_effect st b)"
  by (cases b) (auto simp: aligned_def list_all_iff field_count_def)

lemma aligned_blocks:
  "aligned st \<Longrightarrow> \<forall>b\<in>set bs. wf_block b \<and> common_with_row b \<Longrightarrow>
   aligned (foldl block_effect st bs)"
  by (induction bs arbitrary: st) (auto simp: aligned_block)

lemma outside_blocks: "\<forall>b\<in>set bs. is_outside b \<Longrightarrow> foldl block_effect st bs = st"
proof (induction bs)
  case Nil
  then show ?case by simp
next
  case (Cons b bs)
  then show ?case by (cases b) auto
qed

section \<open>Properties of the table merge\<close>

lemma keep_last_keys: "set (map k (keep_last k xs)) = set (map k xs)"
  by (induction xs) auto


lemma keep_last_distinct: "distinct (map k (keep_last k xs))"
proof (induction xs)
  case Nil
  then show ?case by simp
next
  case (Cons x xs)
  have "k x \<notin> set (map k xs) \<Longrightarrow> k x \<notin> set (map k (keep_last k xs))"
    using keep_last_keys [of k xs] by blast
  with Cons show ?case by auto
qed

lemma keep_last_id: "distinct (map k xs) \<Longrightarrow> keep_last k xs = xs"
  by (induction xs) auto

lemma keep_last_append:
  "keep_last k (xs @ ys)
     = filter (\<lambda>x. k x \<notin> set (map k ys)) (keep_last k xs) @ keep_last k ys"
  by (induction xs) auto

lemma keep_last_map: "keep_last k (map f xs) = map f (keep_last (k \<circ> f) xs)"
  by (induction xs) auto

lemma keep_last_last:
  "i \<in> set (map k xs) \<Longrightarrow> last (filter (\<lambda>x. k x = i) xs) \<in> set (keep_last k xs)"
proof (induction xs)
  case Nil
  then show ?case by simp
next
  case (Cons x xs)
  show ?case
  proof (cases "i \<in> set (map k xs)")
    case True
    then have ne: "filter (\<lambda>x. k x = i) xs \<noteq> []"
      by (auto simp: filter_empty_conv)
    from True have "last (filter (\<lambda>x. k x = i) xs) \<in> set (keep_last k xs)"
      by (rule Cons.IH)
    with ne show ?thesis by auto
  next
    case False
    with Cons.prems have kx: "k x = i" by auto
    from False have "filter (\<lambda>x. k x = i) xs = []"
      by (auto simp: filter_empty_conv)
    with kx False show ?thesis by auto
  qed
qed

lemma cell_reindex:
  "c \<in> set cols \<Longrightarrow> cell cols (reindex cols cols0 r) c = cell cols0 r c"
  by (simp add: cell_def reindex_def map_of_zip_map)


lemma reindex_self:
  assumes "distinct cols" "length r = length cols"
  shows "reindex cols cols r = r"
proof (rule nth_equalityI)
  show "length (reindex cols cols r) = length r" using assms by (simp add: reindex_def)
next
  fix i assume "i < length (reindex cols cols r)"
  then have i: "i < length cols" by (simp add: reindex_def)
  with assms have "map_of (zip cols r) (cols ! i) = Some (r ! i)"
    by (simp add: map_of_zip_nth)
  with i show "reindex cols cols r ! i = r ! i"
    by (simp add: reindex_def cell_def)
qed


lemma row_id_reindex:
  "''ID'' \<in> set cols \<Longrightarrow> row_id cols (reindex cols cols0 r) = row_id cols0 r"
  by (simp add: row_id_def cell_reindex)

lemma row_id_reindex_comp:
  "''ID'' \<in> set cols \<Longrightarrow> row_id cols \<circ> reindex cols cols0 = row_id cols0"
  by (rule ext) (simp add: row_id_reindex)

lemma keep_last_enumerate:
  "map snd (keep_last (k \<circ> snd) (enumerate n xs)) = keep_last k xs"
proof -
  have "keep_last k (map snd (enumerate n xs)) = map snd (keep_last (k \<circ> snd) (enumerate n xs))"
    by (rule keep_last_map)
  then show ?thesis by simp
qed

lemma keep_last_reindexed:
  assumes "''ID'' \<in> set cols"
  shows "keep_last (row_id cols) (map (reindex cols cols0) xs)
     = map (reindex cols cols0) (keep_last (row_id cols0) xs)"
  by (simp add: keep_last_map row_id_reindex_comp [OF assms])

lemma merge_frames_rows:
  assumes "''ID'' \<in> set (columns old) \<union> set (columns df)"
  shows "merge_frames old df =
     Inr \<lparr>columns = union_columns (columns old) (columns df),
          rows = enumerate 0 (merged_cells old df)\<rparr>"
proof -
  let ?cols = "union_columns (columns old) (columns df)"
  let ?R1 = "map (reindex ?cols (columns old)) (cells old)"
  let ?R2 = "map (reindex ?cols (columns df)) (cells df)"
  have ID: "''ID'' \<in> set ?cols" using assms by (auto simp: union_columns_def)
  have k: "(\<lambda>r. cell ?cols (snd r) ''ID'') = row_id ?cols \<circ> snd"
    by (rule ext) (simp add: row_id_def)
  have keys2: "map (row_id ?cols) ?R2 = ids df"
    by (simp add: ids_def row_id_reindex [OF ID])
  have f: "filter (\<lambda>x. row_id ?cols x \<notin> set (ids df))
             (map (reindex ?cols (columns old)) xs)
         = map (reindex ?cols (columns old))
             (filter (\<lambda>r. row_id (columns old) r \<notin> set (ids df)) xs)" for xs
    by (simp add: filter_map comp_def row_id_reindex [OF ID])
  have "keep_last (row_id ?cols) (?R1 @ ?R2) = merged_cells old df"
    unfolding keep_last_append keys2 keep_last_reindexed [OF ID] f
    by (simp add: merged_cells_def Let_def)
  then have "map snd (keep_last (row_id ?cols \<circ> snd) (enumerate 0 (?R1 @ ?R2)))
      = merged_cells old df"
    by (simp only: keep_last_enumerate)
  then show ?thesis using ID
    by (cases "rows old = [] \<and> rows df = []")
       (auto simp: merge_frames_def drop_duplicates_def empty_frame_def concat_frames_def
          reset_index_def k Let_def cells_def comp_def enumerate_eq_zip)
qed

lemma union_columns_Nil: "union_columns a b = [] \<longleftrightarrow> a = [] \<and> b = []"
  by (auto simp: union_columns_def)

lemma empty_concat_frames:
  "empty_frame (concat_frames old df)
     \<longleftrightarrow> (rows old = [] \<and> rows df = []) \<or> (columns old = [] \<and> columns df = [])"
  by (simp add: empty_frame_def concat_frames_def Let_def union_columns_Nil enumerate_eq_zip)

lemma merge_frames_KeyError:
  assumes "''ID'' \<notin> set (columns old)" "''ID'' \<notin> set (columns df)"
    and "rows old \<noteq> [] \<or> rows df \<noteq> []"
    and "columns old \<noteq> [] \<or> columns df \<noteq> []"
  shows "merge_frames old df = Inl KeyError"
proof -
  have "\<not> empty_frame (concat_frames old df)"
    using assms(3,4) by (simp add: empty_concat_frames)
  moreover have "''ID'' \<notin> set (columns (concat_frames old df))"
    using assms(1,2) by (simp add: concat_frames_def union_columns_def Let_def)
  ultimately show ?thesis by (simp add: merge_frames_def drop_duplicates_def)
qed

lemma merge_frames_empty:
  assumes "(rows old = [] \<and> rows df = []) \<or> (columns old = [] \<and> columns df = [])"
  shows "merge_frames old df
     = Inr \<lparr>columns = union_columns (columns old) (columns df),
            rows = enumerate 0
              (map (reindex (union_columns (columns old) (columns df)) (columns old)) (cells old)
               @ map (reindex (union_columns (columns old) (columns df)) (columns df))
                   (cells df))\<rparr>"
proof -
  have "empty_frame (concat_frames old df)"
    using assms by (simp add: empty_concat_frames)
  then show ?thesis
    by (simp add: merge_frames_def drop_duplicates_def reset_index_def concat_frames_def
        Let_def cells_def comp_def)
qed

section \<open>Claims about the parser\<close>

text \<open>
  Claim C1, as amended. A line that starts with the marker of the block the parser is in
  (the COMMON marker at level 1, the GROUP marker at level 2), or with either marker
  while the parser is outside any block, is never header or data content: the step
  leaves the header and the common row as they are and appends no data row; it closes
  the block (handing the collected rows over as one group when the block is a GROUP
  block) or opens one.
\<close>

theorem own_marker_line_only_changes_state:
  assumes "starts_marker PARSE1 raw \<or> starts_marker PARSE2 raw"
    and "level st = 1 \<longrightarrow> starts_marker PARSE1 raw"
    and "level st = 2 \<longrightarrow> starts_marker PARSE2 raw"
  shows "content_untouched st (step st raw) \<and>
         level (step st raw) =
           (if level st = 1 \<or> level st = 2 then 0
            else if starts_marker PARSE1 raw then 1 else 2)"
  using assms markers_disjoint [of raw]
  by (auto simp: step_def starts_marker_def Let_def open_blocks_def content_untouched_def)

theorem own_marker_line_only_changes_state_witness:
  "content_untouched
     (parser_loop [''*-*\<newline>'', ''feed,weight\<newline>'', ''x,10\<newline>''])
     (step (parser_loop [''*-*\<newline>'', ''feed,weight\<newline>'', ''x,10\<newline>''])
        ''  *-* end\<newline>'')
   \<and> level (step (parser_loop [''*-*\<newline>'', ''feed,weight\<newline>'', ''x,10\<newline>''])
        ''  *-* end\<newline>'') = 0"
proof -
  let ?st = "parser_loop [''*-*\<newline>'', ''feed,weight\<newline>'', ''x,10\<newline>'']"
  have 1: "starts_marker PARSE1 ''  *-* end\<newline>'' \<or> starts_marker PARSE2 ''  *-* end\<newline>''"
    by code_simp
  have l: "level ?st = 2" by code_simp
  have 2: "level ?st = 1 \<longrightarrow> starts_marker PARSE1 ''  *-* end\<newline>''"
    using l by simp
  have 3: "level ?st = 2 \<longrightarrow> starts_marker PARSE2 ''  *-* end\<newline>''"
    by code_simp
  show ?thesis
    using own_marker_line_only_changes_state [OF 1 2 3] l by simp
qed

text \<open>
  Claim C1 as stated fails for a marker of the other block type: inside a COMMON block
  a GROUP-marker line is stored as the header (or the common row) before it opens the
  GROUP block, and inside a GROUP block a COMMON-marker line is appended as a data row
  (or to the header) before it opens the COMMON block.
\<close>

theorem other_marker_line_is_content:
  "starts_marker PARSE2 ''*-*\<newline>''
   \<and> level (parser_loop [''*--*\<newline>'']) = 1
   \<and> \<not> content_untouched (parser_loop [''*--*\<newline>''])
        (step (parser_loop [''*--*\<newline>'']) ''*-*\<newline>'')
   \<and> parser ''*--*\<newline>*-*\<newline>'' = ([''*-*''], [])
   \<and> starts_marker PARSE1 ''*--*\<newline>''
   \<and> level (parser_loop [''*-*\<newline>'', ''h\<newline>'']) = 2
   \<and> \<not> content_untouched (parser_loop [''*-*\<newline>'', ''h\<newline>''])
        (step (parser_loop [''*-*\<newline>'', ''h\<newline>'']) ''*--*\<newline>'')
   \<and> parser ''*-*\<newline>h\<newline>*--*\<newline>*--*\<newline>*-*\<newline>x\<newline>*-*\<newline>''
       = ([''h'', ''x''], [[[''*--*'']]])"
  by code_simp

text \<open>
  Claim C2. The text with one COMMON block (header line \<open>id,sex\<close>, common row
  \<open>A,1\<close>) and one GROUP block (header line \<open>feed,weight\<close>, rows \<open>x,10\<close> and
  \<open>y,20\<close>), every marker on a line of its own, parses to the header
  \<open>id, sex, diet, weight\<close> and to exactly one group with the rows
  \<open>A, 1, x, 10\<close> and \<open>A, 1, y, 20\<close>, with or without a newline after the last
  marker.
\<close>

theorem parser_concrete_scenario:
  "parser ''*--*\<newline>id,sex\<newline>A,1\<newline>*--*\<newline>*-*\<newline>feed,weight\<newline>x,10\<newline>y,20\<newline>*-*\<newline>''
    = ([''id'', ''sex'', ''diet'', ''weight''],
       [[[''A'', ''1'', ''x'', ''10''], [''A'', ''1'', ''y'', ''20'']]])
   \<and> parser ''*--*\<newline>id,sex\<newline>A,1\<newline>*--*\<newline>*-*\<newline>feed,weight\<newline>x,10\<newline>y,20\<newline>*-*''
    = ([''id'', ''sex'', ''diet'', ''weight''],
       [[[''A'', ''1'', ''x'', ''10''], [''A'', ''1'', ''y'', ''20'']]])
   \<and> render [Common ''id,sex'' [''A,1''], Group ''feed,weight'' [''x,10'', ''y,20'']]
    = ''*--*\<newline>id,sex\<newline>A,1\<newline>*--*\<newline>*-*\<newline>feed,weight\<newline>x,10\<newline>y,20\<newline>*-*\<newline>''"
  by code_simp

text \<open>
  Claim C7, as amended. For a well-formed metadata text made of any number of COMMON
  blocks, each with a header line and at least one data row, followed by exactly one
  GROUP block (free text lines allowed around the blocks), the parser returns exactly
  one group, with one row for each data row of the GROUP block, and the header has as
  many entries as every row of that group has columns.
\<close>

theorem single_group_header_matches_rows:
  assumes pre: "\<forall>b\<in>set pre. wf_block b \<and> common_with_row b"
    and grp: "wf_block (Group h rs)"
    and post: "\<forall>b\<in>set post. wf_block b \<and> is_outside b"
  shows "header_matches_rows (render (pre @ Group h rs # post)) \<and>
         (\<exists>g. snd (parser (render (pre @ Group h rs # post))) = [g] \<and> length g = length rs)"
proof -
  let ?st = "foldl block_effect init_state pre"
  have "aligned init_state" by (simp add: aligned_def init_state_def)
  then have al: "aligned ?st" using pre by (rule aligned_blocks)
  have wf: "\<forall>b\<in>set (pre @ Group h rs # post). wf_block b"
    using pre grp post by auto
  have fin: "foldl block_effect init_state (pre @ Group h rs # post)
      = block_effect ?st (Group h rs)"
    using post by (simp add: outside_blocks)
  have p: "parser (render (pre @ Group h rs # post))
      = (rename_feed (header ?st @ split_sep CHR '','' h),
         [map (\<lambda>r. common ?st @ split_sep CHR '','' r) rs])"
    using al unfolding parser_render [OF wf] fin by (simp add: aligned_def)
  have "\<forall>r\<in>set rs. length (common ?st @ split_sep CHR '','' r)
      = length (rename_feed (header ?st @ split_sep CHR '','' h))"
    using al grp by (auto simp: aligned_def list_all_iff field_count_def rename_feed_def)
  then show ?thesis
    by (simp add: header_matches_rows_def list_all_iff p)
qed

theorem single_group_header_matches_rows_witness:
  "header_matches_rows (render ([Outside ''notes'', Common ''id,sex'' [''A,1'']]
       @ Group ''feed,weight'' [''x,10'', ''y,20''] # [Outside []]))
   \<and> (\<exists>g. snd (parser (render ([Outside ''notes'', Common ''id,sex'' [''A,1'']]
       @ Group ''feed,weight'' [''x,10'', ''y,20''] # [Outside []]))) = [g]
        \<and> length g = length [''x,10'', ''y,20''])"
proof -
  have 1: "\<forall>b\<in>set [Outside ''notes'', Common ''id,sex'' [''A,1'']].
             wf_block b \<and> common_with_row b"
    by code_simp
  have 2: "wf_block (Group ''feed,weight'' [''x,10'', ''y,20''])"
    by code_simp
  have 3: "\<forall>b\<in>set [Outside []]. wf_block b \<and> is_outside b"
    by code_simp
  show ?thesis by (rule single_group_header_matches_rows [OF 1 2 3])
qed

text \<open>
  Claim C7 as stated fails on well-formed texts: a second GROUP block appends its header
  line to a header that already holds the first group's columns, and a COMMON block
  without data row leaves the common row empty.
\<close>

theorem growing_header_counterexample:
  "list_all wf_block [Common ''id,sex'' [''A,1''], Group ''feed,weight'' [''x,10''],
                      Group ''feed,weight'' [''y,20'']]
   \<and> parser (render [Common ''id,sex'' [''A,1''], Group ''feed,weight'' [''x,10''],
                      Group ''feed,weight'' [''y,20'']])
       = ([''id'', ''sex'', ''diet'', ''weight'', ''diet'', ''weight''],
          [[[''A'', ''1'', ''x'', ''10'']], [[''A'', ''1'', ''y'', ''20'']]])
   \<and> \<not> header_matches_rows (render [Common ''id,sex'' [''A,1''],
          Group ''feed,weight'' [''x,10''], Group ''feed,weight'' [''y,20'']])
   \<and> list_all wf_block [Common ''id,sex'' [], Group ''feed,weight'' [''x,10'']]
   \<and> parser (render [Common ''id,sex'' [], Group ''feed,weight'' [''x,10'']])
       = ([''id'', ''sex'', ''diet'', ''weight''], [[[''x'', ''10'']]])
   \<and> \<not> header_matches_rows (render [Common ''id,sex'' [], Group ''feed,weight'' [''x,10'']])"
  by code_simp

section \<open>More properties of the table merge\<close>

lemma update_db_merge:
  "store path = Some old \<Longrightarrow>
   update_db df path store =
     (case merge_frames old df of Inl e \<Rightarrow> Inl e | Inr new \<Rightarrow> Inr (store(path \<mapsto> new)))"
  by (simp add: update_db_def)

lemma ids_merged:
  assumes "''ID'' \<in> set (columns old) \<union> set (columns df)"
  shows "map (row_id (union_columns (columns old) (columns df))) (merged_cells old df)
     = filter (\<lambda>i. i \<notin> set (ids df)) (map (row_id (columns old))
          (keep_last (row_id (columns old)) (cells old)))
       @ map (row_id (columns df)) (keep_last (row_id (columns df)) (cells df))"
proof -
  have ID: "''ID'' \<in> set (union_columns (columns old) (columns df))"
    using assms by (auto simp: union_columns_def)
  show ?thesis
    by (simp add: merged_cells_def Let_def comp_def row_id_reindex [OF ID] filter_map)
qed

lemma cells_enumerate [simp]: "cells \<lparr>columns = cs, rows = enumerate n xs\<rparr> = xs"
  by (simp add: cells_def)

lemma distinct_union_columns:
  "distinct a \<Longrightarrow> distinct b \<Longrightarrow> distinct (union_columns a b)"
  by (auto simp: union_columns_def)

lemma union_columns_absorb: "set b \<subseteq> set a \<Longrightarrow> union_columns a b = a"
  by (auto simp: union_columns_def filter_empty_conv)

lemma reindex_idem:
  "distinct cols \<Longrightarrow> reindex cols cols (reindex cols cols0 r) = reindex cols cols0 r"
  by (rule reindex_self) (simp_all add: reindex_def)

lemma merged_cells_length:
  "r \<in> set (merged_cells old df) \<Longrightarrow>
   length r = length (union_columns (columns old) (columns df))"
  by (auto simp: merged_cells_def Let_def reindex_def)

lemma merged_ids_distinct:
  assumes "''ID'' \<in> set (columns old) \<union> set (columns df)"
  shows "distinct (map (row_id (union_columns (columns old) (columns df)))
                    (merged_cells old df))"
proof -
  have "set (map (row_id (columns df)) (keep_last (row_id (columns df)) (cells df)))
      = set (ids df)"
    using keep_last_keys [of "row_id (columns df)" "cells df"] by (simp add: ids_def)
  moreover have "distinct (map (row_id (columns old))
      (keep_last (row_id (columns old)) (cells old)))"
    by (rule keep_last_distinct)
  moreover have "distinct (map (row_id (columns df))
      (keep_last (row_id (columns df)) (cells df)))"
    by (rule keep_last_distinct)
  ultimately show ?thesis
    unfolding ids_merged [OF assms] by auto
qed

lemma merged_cells_again:
  assumes d1: "distinct (columns old)" and d2: "distinct (columns df)"
    and ID: "''ID'' \<in> set (columns old) \<union> set (columns df)"
  shows "merged_cells \<lparr>columns = union_columns (columns old) (columns df),
                       rows = enumerate 0 (merged_cells old df)\<rparr> df
     = merged_cells old df"
proof -
  let ?cols = "union_columns (columns old) (columns df)"
  let ?A = "map (reindex ?cols (columns old))
        (filter (\<lambda>r. row_id (columns old) r \<notin> set (ids df))
           (keep_last (row_id (columns old)) (cells old)))"
  let ?B = "map (reindex ?cols (columns df)) (keep_last (row_id (columns df)) (cells df))"
  have IDc: "''ID'' \<in> set ?cols" using ID by (auto simp: union_columns_def)
  have mc: "merged_cells old df = ?A @ ?B" by (simp add: merged_cells_def Let_def)
  have sub: "set (columns df) \<subseteq> set ?cols" by (auto simp: union_columns_def)
  have cols: "union_columns ?cols (columns df) = ?cols"
    using sub by (rule union_columns_absorb)
  have k: "keep_last (row_id ?cols) (?A @ ?B) = ?A @ ?B"
    using merged_ids_distinct [OF ID] unfolding mc by (rule keep_last_id)
  have keysB: "set (map (row_id ?cols) ?B) = set (ids df)"
    using keep_last_keys [of "row_id (columns df)" "cells df"]
    by (simp add: comp_def row_id_reindex [OF IDc] ids_def)
  have fA: "filter (\<lambda>r. row_id ?cols r \<notin> set (ids df)) ?A = ?A"
    by (simp add: filter_map comp_def row_id_reindex [OF IDc])
  have fB: "filter (\<lambda>r. row_id ?cols r \<notin> set (ids df)) ?B = []"
    using keysB by (auto simp: filter_empty_conv)
  have dc: "distinct ?cols" using d1 d2 by (rule distinct_union_columns)
  have rA: "map (reindex ?cols ?cols) ?A = ?A"
    by (simp add: comp_def reindex_idem [OF dc])
  show ?thesis
    unfolding merged_cells_def [of "\<lparr>columns = ?cols, rows = enumerate 0 (merged_cells old df)\<rparr>" df]
    by (simp add: cols Let_def mc k fA fB rA del: map_map filter_append)
       (simp only: filter_append fA fB rA append_Nil2)
qed




section \<open>Properties of the resampling\<close>

lemma length_linspace: "length (linspace a b n) = n"
  by (simp add: linspace_def)

lemma interp1d_length:
  assumes "array \<noteq> []"
  shows "\<exists>ys. interp1d array F = Inr ys \<and> length ys = F"
  using assms by (simp add: interp1d_def interp_def arange_def length_linspace Let_def)

lemma linspace_same: "linspace 0 (real n - 1) n = map real [0..<n]"
proof (cases "n = 1")
  case True
  then show ?thesis by (simp add: linspace_def)
next
  case False
  show ?thesis
  proof (cases "n = 0")
    case True
    then show ?thesis by (simp add: linspace_def)
  next
    case n0: False
    with False have "real (n - 1) = real n - 1" "real n - 1 \<noteq> 0" by auto
    then show ?thesis using False by (simp add: linspace_def)
  qed
qed

lemma takeWhile_arange:
  assumes "i < n"
  shows "takeWhile (\<lambda>p. p \<le> real i) (map real [0..<n]) = map real [0..<Suc i]"
proof -
  from assms have split: "[0..<n] = [0..<Suc i] @ [Suc i..<n]"
    using upt_add_eq_append [of 0 "Suc i" "n - Suc i"] by simp
  have rest: "takeWhile (\<lambda>p. p \<le> real i) (map real [Suc i..<n]) = []"
    by (cases "Suc i < n") (simp_all add: upt_rec [of "Suc i" n])
  show ?thesis
    unfolding split map_append
    by (subst takeWhile_append2) (auto simp: rest)
qed

lemma interp_at_sample:
  assumes "i < length fp"
  shows "interp_at (arange (length fp)) fp (real i) = fp ! i"
proof -
  let ?n = "length fp"
  from assms have ne: "[0..<?n] \<noteq> []" by auto
  have hd0: "hd (map real [0..<?n]) = 0"
    using assms by (auto simp: hd_map upt_rec [of 0 ?n])
  have lst: "last (map real [0..<?n]) = real (?n - 1)"
    using assms ne by (simp add: last_map)
  have j: "length (takeWhile (\<lambda>p. p \<le> real i) (map real [0..<?n])) - 1 = i"
    using takeWhile_arange [OF assms] by simp
  have le: "\<not> real (?n - 1) < real i" using assms by simp
  show ?thesis
    unfolding interp_at_def arange_def hd0 lst j Let_def
    using assms le by simp
qed

lemma upt5: "[0..<5] = [0, 1, 2, 3, 4]" "[0..<3] = [0, 1, 2]"
  by (simp_all add: upt_rec numeral_eq_Suc)

lemma linspace5: "linspace 0 2 5 = [0, 1/2, 1, 3/2, 2]"
  by (simp add: linspace_def upt5)

lemma arange3: "arange (Suc (Suc (Suc 0))) = [0, 1, 2]"
  by (simp add: arange_def upt_rec)

lemma interp_at_3:
  "interp_at [0, 1, 2] [a, b, c] 0 = a"
  "interp_at [0, 1, 2] [a, b, c] (1/2) = (b - a) * (1/2) + a"
  "interp_at [0, 1, 2] [a, b, c] 1 = b"
  "interp_at [0, 1, 2] [a, b, c] (3/2) = (c - b) * (1/2) + b"
  "interp_at [0, 1, 2] [a, b, c] 2 = c"
  by (simp_all add: interp_at_def)

lemma interp1d_3_5:
  "interp1d [a, b, c] 5 = Inr [a, (b - a) * (1/2) + a, b, (c - b) * (1/2) + b, c]"
  by (simp add: interp1d_def interp_def Let_def linspace5 arange3 interp_at_3)

lemma process_image_3_5:
  assumes "col_max img = Inr [x, y, z]"
  shows "process_image \<lparr>max_value = mv, final_len = 5, threshold = t\<rparr> img
     = Inr ([real x / mv, real y / mv, real z / mv],
            map (\<lambda>v. if v < t then 0 else v)
              [real x / mv, (real y / mv - real x / mv) * (1/2) + real x / mv, real y / mv,
               (real z / mv - real y / mv) * (1/2) + real y / mv, real z / mv],
            [real x / mv, (real y / mv - real x / mv) * (1/2) + real x / mv, real y / mv,
             (real z / mv - real y / mv) * (1/2) + real y / mv, real z / mv],
            [map (\<lambda>v. if v < t then 0 else v)
              [real x / mv, (real y / mv - real x / mv) * (1/2) + real x / mv, real y / mv,
               (real z / mv - real y / mv) * (1/2) + real y / mv, real z / mv]])"
  unfolding process_image_def assms
  by (simp only: sum.case list.map Let_def interp1d_3_5 keemplot.simps create_barcode_def)
     simp

lemma col_max_two_rows: "col_max [[0, 32767, 100], [0, 5, 65535]] = Inr [0, 32767, 65535]"
  by (simp add: col_max_def)

lemma col_max_one_row: "col_max [[0, 32767, 65535]] = Inr [0, 32767, 65535]"
  by (simp add: col_max_def)

section \<open>Claims about the signal pipeline\<close>

text \<open>
  Claim C3, as amended. For every image whose column-wise maxima are 0, 32767 and
  65535, processing with \<open>max_value = 65535\<close>, final length 5 and relative
  threshold 0.6 (the absolute threshold 39321) gives, in exact arithmetic, the
  normalised raw vector \<open>0, 32767/65535, 1\<close>, the resampled vector
  \<open>0, 32767/131070, 32767/65535, 49151/65535, 1\<close> and the thresholded vector
  \<open>0, 0, 0, 49151/65535, 1\<close>: exactly the elements strictly below 0.6 are zeroed.
  The vector \<open>0, 1/2, 1\<close> itself resamples to \<open>0, 1/4, 1/2, 3/4, 1\<close>, which
  thresholds to \<open>0, 0, 0, 3/4, 1\<close>.
\<close>

theorem process_scenario_exact:
  assumes "col_max img = Inr [0, 32767, 65535]"
  shows "init_params 65535 39321 5 = Inr \<lparr>max_value = 65535, final_len = 5, threshold = 6/10\<rparr>
     \<and> process_image \<lparr>max_value = 65535, final_len = 5, threshold = 6/10\<rparr> img
       = Inr ([0, 32767/65535, 1],
              [0, 0, 0, 49151/65535, 1],
              [0, 32767/131070, 32767/65535, 49151/65535, 1],
              [[0, 0, 0, 49151/65535, 1]])
     \<and> interp1d [0, 1/2, 1] 5 = Inr [0, 1/4, 1/2, 3/4, 1]
     \<and> map (\<lambda>v. if v < 6/10 then 0 else v) [0, 1/4, 1/2, 3/4, 1 :: real] = [0, 0, 0, 3/4, 1]"
proof (intro conjI)
  show "init_params 65535 39321 5
      = Inr \<lparr>max_value = 65535, final_len = 5, threshold = 6/10\<rparr>"
    by (simp add: init_params_def)
  show "process_image \<lparr>max_value = 65535, final_len = 5, threshold = 6/10\<rparr> img
       = Inr ([0, 32767/65535, 1],
              [0, 0, 0, 49151/65535, 1],
              [0, 32767/131070, 32767/65535, 49151/65535, 1],
              [[0, 0, 0, 49151/65535, 1]])"
    unfolding process_image_3_5 [OF assms] by simp
  show "interp1d [0, 1/2, 1] 5 = Inr [0, 1/4, 1/2, 3/4, 1]"
    unfolding interp1d_3_5 by simp
  show "map (\<lambda>v. if v < 6/10 then 0 else v) [0, 1/4, 1/2, 3/4, 1 :: real] = [0, 0, 0, 3/4, 1]"
    by simp
qed

theorem process_scenario_exact_witness:
  "init_params 65535 39321 5 = Inr \<lparr>max_value = 65535, final_len = 5, threshold = 6/10\<rparr>
     \<and> process_image \<lparr>max_value = 65535, final_len = 5, threshold = 6/10\<rparr>
          [[0, 32767, 100], [0, 5, 65535]]
       = Inr ([0, 32767/65535, 1],
              [0, 0, 0, 49151/65535, 1],
              [0, 32767/131070, 32767/65535, 49151/65535, 1],
              [[0, 0, 0, 49151/65535, 1]])
     \<and> interp1d [0, 1/2, 1] 5 = Inr [0, 1/4, 1/2, 3/4, 1]
     \<and> map (\<lambda>v. if v < 6/10 then 0 else v) [0, 1/4, 1/2, 3/4, 1 :: real] = [0, 0, 0, 3/4, 1]"
  by (rule process_scenario_exact [OF col_max_two_rows])

text \<open>
  Claim C3 as stated fails at its first step: 32767 divided by 65535 is not one half,
  so none of the three vectors has the values the claim gives.
\<close>

theorem normalised_midpoint_not_half:
  "col_max [[0, 32767, 65535]] = Inr [0, 32767, 65535]
   \<and> process_image \<lparr>max_value = 65535, final_len = 5, threshold = 6/10\<rparr> [[0, 32767, 65535]]
      \<noteq> Inr ([0, 1/2, 1], [0, 0, 0, 3/4, 1], [0, 1/4, 1/2, 3/4, 1], [[0, 0, 0, 3/4, 1]])"
  unfolding process_image_3_5 [OF col_max_one_row] col_max_one_row by simp

text \<open>
  Claim C6. Resampling a vector of native length at least one to any target length
  \<open>F\<close> returns a vector of exactly length \<open>F\<close>, and resampling it to its own
  length returns the vector itself (in exact arithmetic, the sample positions being the
  indices).
\<close>

theorem interp1d_length_and_identity:
  assumes "array \<noteq> []"
  shows "(\<exists>ys. interp1d array F = Inr ys \<and> length ys = F)
         \<and> interp1d array (length array) = Inr array"
proof
  show "\<exists>ys. interp1d array F = Inr ys \<and> length ys = F"
    using assms by (rule interp1d_length)
next
  have "map (interp_at (arange (length array)) array) (map real [0..<length array])
      = map (\<lambda>i. array ! i) [0..<length array]"
    by (simp add: interp_at_sample)
  also have "\<dots> = array" by (rule map_nth)
  finally show "interp1d array (length array) = Inr array"
    using assms by (simp add: interp1d_def interp_def Let_def linspace_same arange_def)
qed

theorem interp1d_length_and_identity_witness:
  "(\<exists>ys. interp1d [0, 1/2, 1] 5 = Inr ys \<and> length ys = 5)
   \<and> interp1d [0, 1/2, 1] (length [0, 1/2, 1 :: real]) = Inr [0, 1/2, 1]"
proof -
  have 1: "[0, 1/2, 1 :: real] \<noteq> []" by simp
  show ?thesis by (rule interp1d_length_and_identity [OF 1])
qed

text \<open>
  Claim C9, as amended. With \<open>n\<close> parsed groups, group selection fails with
  \<^verbatim>\<open>IndexError\<close> (the range error of the specification) whenever
  \<open>group_number\<close> is above \<open>n\<close>, or at most \<open>-n\<close>.
\<close>

theorem select_group_out_of_range:
  assumes "int (length groups) < group_number \<or> group_number \<le> - int (length groups)"
  shows "select_group groups group_number = Inl IndexError"
  using assms by (auto simp: select_group_def getitem_def)

theorem select_group_out_of_range_witness:
  "select_group (snd (parser ''*-*\<newline>h\<newline>x\<newline>*-*\<newline>'')) 2 = Inl IndexError
   \<and> select_group (snd (parser ''*-*\<newline>h\<newline>x\<newline>*-*\<newline>'')) (-1) = Inl IndexError"
proof -
  have l: "length (snd (parser ''*-*\<newline>h\<newline>x\<newline>*-*\<newline>'')) = 1" by code_simp
  have 1: "int (length (snd (parser ''*-*\<newline>h\<newline>x\<newline>*-*\<newline>''))) < 2
    \<or> (2::int) \<le> - int (length (snd (parser ''*-*\<newline>h\<newline>x\<newline>*-*\<newline>'')))"
    using l by simp
  have 2: "int (length (snd (parser ''*-*\<newline>h\<newline>x\<newline>*-*\<newline>''))) < -1
    \<or> (-1::int) \<le> - int (length (snd (parser ''*-*\<newline>h\<newline>x\<newline>*-*\<newline>'')))"
    using l by simp
  show ?thesis
    using select_group_out_of_range [OF 1] select_group_out_of_range [OF 2] by simp
qed

text \<open>
  Claim C9 as stated fails for \<open>group_number = 0\<close>: the index \<open>-1\<close> that the
  constructor computes counts from the end, and the last group is returned.
\<close>

theorem select_group_zero_returns_last:
  "snd (parser ''*-*\<newline>h\<newline>x\<newline>*-*\<newline>*-*\<newline>k\<newline>y\<newline>*-*\<newline>'') = [[[''x'']], [[''y'']]]
   \<and> select_group (snd (parser ''*-*\<newline>h\<newline>x\<newline>*-*\<newline>*-*\<newline>k\<newline>y\<newline>*-*\<newline>'')) 0
       = Inr [[''y'']]"
  by code_simp

section \<open>Claims about the table merge\<close>

text \<open>
  Claim C4. When the existing table is read and the identifier column exists in at
  least one of the two tables, the merge succeeds, and the merged table holds every
  identifier of either input exactly once: its identifiers are distinct and are those
  of the two inputs (the identifier of a row being missing where its table has no
  identifier column). A merged row whose identifier occurs in the new table is the
  last row of the new table with that identifier, laid out on the merged columns.
\<close>

theorem update_db_ids_once_newest_wins:
  assumes "store path = Some old" and "wf_frame old" and "wf_frame df"
    and "''ID'' \<in> set (columns old) \<union> set (columns df)"
  shows "\<exists>m. update_db df path store = Inr (store(path \<mapsto> m))
           \<and> distinct (ids m)
           \<and> set (ids m) = set (ids old) \<union> set (ids df)
           \<and> (\<forall>r\<in>set (cells m). row_id (columns m) r \<in> set (ids df) \<longrightarrow>
                r = reindex (columns m) (columns df)
                      (last (filter (\<lambda>x. row_id (columns df) x = row_id (columns m) r)
                         (cells df))))"
proof -
  let ?cols = "union_columns (columns old) (columns df)"
  let ?m = "\<lparr>columns = ?cols, rows = enumerate 0 (merged_cells old df)\<rparr>"
  let ?A = "filter (\<lambda>i. i \<notin> set (ids df)) (map (row_id (columns old))
          (keep_last (row_id (columns old)) (cells old)))"
  let ?B = "map (row_id (columns df)) (keep_last (row_id (columns df)) (cells df))"
  have m: "update_db df path store = Inr (store(path \<mapsto> ?m))"
    using assms(1) merge_frames_rows [OF assms(4)] by (simp add: update_db_merge)
  have idm: "ids ?m = ?A @ ?B"
    using ids_merged [OF assms(4)] by (simp add: ids_def)
  have setB: "set ?B = set (ids df)"
    using keep_last_keys [of "row_id (columns df)" "cells df"] by (simp add: ids_def)
  have setA: "set ?A = set (ids old) - set (ids df)"
    using keep_last_keys [of "row_id (columns old)" "cells old"] by (auto simp: ids_def)
  have dA: "distinct ?A"
    using keep_last_distinct [of "row_id (columns old)" "cells old"] by simp
  have dB: "distinct ?B" by (rule keep_last_distinct)
  have 1: "distinct (ids ?m)" unfolding idm using dA dB setA setB by auto
  have 2: "set (ids ?m) = set (ids old) \<union> set (ids df)"
    unfolding idm using setA setB by auto
  have ID: "''ID'' \<in> set ?cols" using assms(4) by (auto simp: union_columns_def)
  have 3: "\<forall>r\<in>set (cells ?m). row_id (columns ?m) r \<in> set (ids df) \<longrightarrow>
      r = reindex (columns ?m) (columns df)
            (last (filter (\<lambda>x. row_id (columns df) x = row_id (columns ?m) r) (cells df)))"
  proof (intro ballI impI)
    fix r assume r: "r \<in> set (cells ?m)" and i: "row_id (columns ?m) r \<in> set (ids df)"
    let ?i = "row_id (columns ?m) r"
    let ?r0 = "last (filter (\<lambda>x. row_id (columns df) x = ?i) (cells df))"
    from i have mem: "?i \<in> set (map (row_id (columns df)) (cells df))" by (simp add: ids_def)
    then have k: "?r0 \<in> set (keep_last (row_id (columns df)) (cells df))"
      by (rule keep_last_last)
    then have in_m: "reindex ?cols (columns df) ?r0 \<in> set (cells ?m)"
      by (simp add: merged_cells_def Let_def)
    from mem have "filter (\<lambda>x. row_id (columns df) x = ?i) (cells df) \<noteq> []"
      by (auto simp: filter_empty_conv)
    then have "?r0 \<in> set (filter (\<lambda>x. row_id (columns df) x = ?i) (cells df))"
      by (rule last_in_set)
    then have "row_id (columns df) ?r0 = ?i" by simp
    then have same: "row_id ?cols (reindex ?cols (columns df) ?r0) = row_id ?cols r"
      by (simp add: row_id_reindex [OF ID])
    have "inj_on (row_id ?cols) (set (cells ?m))"
      using 1 by (simp add: ids_def distinct_map)
    with r in_m same have "reindex ?cols (columns df) ?r0 = r"
      by (auto dest: inj_onD)
    then show "r = reindex (columns ?m) (columns df) ?r0" by simp
  qed
  from m 1 2 3 show ?thesis by blast
qed

theorem update_db_ids_once_newest_wins_witness:
  "\<exists>m. update_db ex_new ''db'' [''db'' \<mapsto> ex_old] = Inr ([''db'' \<mapsto> ex_old](''db'' \<mapsto> m))
           \<and> distinct (ids m)
           \<and> set (ids m) = set (ids ex_old) \<union> set (ids ex_new)
           \<and> (\<forall>r\<in>set (cells m). row_id (columns m) r \<in> set (ids ex_new) \<longrightarrow>
                r = reindex (columns m) (columns ex_new)
                      (last (filter (\<lambda>x. row_id (columns ex_new) x = row_id (columns m) r)
                         (cells ex_new))))"
proof -
  have 1: "[''db'' \<mapsto> ex_old] ''db'' = Some ex_old" by simp
  have 2: "wf_frame ex_old" by (simp add: wf_frame_def ex_old_def)
  have 3: "wf_frame ex_new" by (simp add: wf_frame_def ex_new_def)
  have 4: "''ID'' \<in> set (columns ex_old) \<union> set (columns ex_new)"
    by (simp add: ex_old_def)
  show ?thesis
    by (rule update_db_ids_once_newest_wins
          [of "[''db'' \<mapsto> ex_old]" "''db''" ex_old ex_new, OF 1 2 3 4])
qed

text \<open>
  Claim C5, as amended. For an existing table and a new table of which at least one
  has a column, merging the new table into the persisted table twice leaves the store
  as it is after merging once: the same columns, rows, values, order and index. When
  the identifier column exists in one of the tables the first call does write the
  merged table; when it exists in neither, a call raises and writes nothing, or, the
  two tables having no row, writes the table without rows.
\<close>

theorem update_db_idempotent:
  assumes "store path = Some old" and "wf_frame old" and "wf_frame df"
    and "columns old \<noteq> [] \<or> columns df \<noteq> []"
  shows "persisted_after df path (persisted_after df path store) = persisted_after df path store
         \<and> (''ID'' \<in> set (columns old) \<union> set (columns df) \<longrightarrow>
              update_db df path store = Inr (persisted_after df path store))"
proof (cases "''ID'' \<in> set (columns old) \<union> set (columns df)")
  case False
  show ?thesis
  proof (cases "rows old = [] \<and> rows df = []")
    case rows: False
    have "merge_frames old df = Inl KeyError"
      using False rows assms(4) by (intro merge_frames_KeyError) auto
    then have "update_db df path store = Inl KeyError"
      using assms(1) by (simp add: update_db_merge)
    with False show ?thesis by (simp add: persisted_after_def)
  next
    case rows: True
    let ?cols = "union_columns (columns old) (columns df)"
    let ?m = "\<lparr>columns = ?cols, rows = []\<rparr> :: 'a frame"
    have "merge_frames old df = Inr ?m"
      using rows merge_frames_empty [of old df] by (simp add: cells_def enumerate_eq_zip)
    then have 1: "update_db df path store = Inr (store(path \<mapsto> ?m))"
      using assms(1) by (simp add: update_db_merge)
    have cols: "union_columns ?cols (columns df) = ?cols"
      by (rule union_columns_absorb) (auto simp: union_columns_def)
    have "merge_frames ?m df = Inr ?m"
      using rows merge_frames_empty [of ?m df]
      by (simp add: cells_def enumerate_eq_zip cols)
    then have 2: "update_db df path (store(path \<mapsto> ?m)) = Inr (store(path \<mapsto> ?m))"
      by (simp add: update_db_def)
    from 1 2 False show ?thesis by (simp add: persisted_after_def)
  qed
next
  case True
  let ?cols = "union_columns (columns old) (columns df)"
  let ?m = "\<lparr>columns = ?cols, rows = enumerate 0 (merged_cells old df)\<rparr>"
  have 1: "update_db df path store = Inr (store(path \<mapsto> ?m))"
    using assms(1) merge_frames_rows [OF True] by (simp add: update_db_merge)
  have ID2: "''ID'' \<in> set (columns ?m) \<union> set (columns df)"
    using True by (auto simp: union_columns_def)
  have cols: "union_columns ?cols (columns df) = ?cols"
    by (rule union_columns_absorb) (auto simp: union_columns_def)
  have again: "merged_cells ?m df = merged_cells old df"
    using assms(2,3) True by (intro merged_cells_again) (auto simp: wf_frame_def)
  have "merge_frames ?m df = Inr ?m"
    using merge_frames_rows [OF ID2] by (simp add: cols again)
  then have 2: "update_db df path (store(path \<mapsto> ?m)) = Inr (store(path \<mapsto> ?m))"
    by (simp add: update_db_def)
  from 1 2 show ?thesis by (simp add: persisted_after_def)
qed

theorem update_db_idempotent_witness:
  "persisted_after ex_new ''db'' (persisted_after ex_new ''db'' [''db'' \<mapsto> ex_old])
      = persisted_after ex_new ''db'' [''db'' \<mapsto> ex_old]
   \<and> update_db ex_new ''db'' [''db'' \<mapsto> ex_old]
      = Inr (persisted_after ex_new ''db'' [''db'' \<mapsto> ex_old])"
proof -
  have 1: "[''db'' \<mapsto> ex_old] ''db'' = Some ex_old" by simp
  have 2: "wf_frame ex_old" by (simp add: wf_frame_def ex_old_def)
  have 3: "wf_frame ex_new" by (simp add: wf_frame_def ex_new_def)
  have 4: "columns ex_old \<noteq> [] \<or> columns ex_new \<noteq> []" by (simp add: ex_old_def)
  have 5: "''ID'' \<in> set (columns ex_old) \<union> set (columns ex_new)"
    by (simp add: ex_old_def)
  show ?thesis
    using update_db_idempotent [of "[''db'' \<mapsto> ex_old]" "''db''" ex_old ex_new, OF 1 2 3 4] 5
    by blast
qed

text \<open>
  Claim C5 as stated fails for two tables without any column: the concatenation is
  empty in the sense of \<^verbatim>\<open>DataFrame.empty\<close>, so \<^verbatim>\<open>drop_duplicates\<close>
  returns it as it is, and every call appends the rows of the new table once more.
\<close>

theorem update_db_twice_appends_twice:
  "wf_frame ex_bare \<and> wf_frame ex_bare_row
   \<and> persisted_after ex_bare_row ''db'' [''db'' \<mapsto> ex_bare]
       = [''db'' \<mapsto> \<lparr>columns = [], rows = [(0, [])]\<rparr>]
   \<and> persisted_after ex_bare_row ''db''
        (persisted_after ex_bare_row ''db'' [''db'' \<mapsto> ex_bare])
       = [''db'' \<mapsto> \<lparr>columns = [], rows = [(0, []), (1, [])]\<rparr>]
   \<and> persisted_after ex_bare_row ''db''
        (persisted_after ex_bare_row ''db'' [''db'' \<mapsto> ex_bare])
       \<noteq> persisted_after ex_bare_row ''db'' [''db'' \<mapsto> ex_bare]"
proof -
  have 1: "persisted_after ex_bare_row ''db'' [''db'' \<mapsto> ex_bare]
       = [''db'' \<mapsto> \<lparr>columns = [], rows = [(0, [])]\<rparr>]"
    by (simp add: persisted_after_def update_db_def merge_frames_def drop_duplicates_def
        empty_frame_def concat_frames_def reset_index_def union_columns_def reindex_def
        ex_bare_def ex_bare_row_def enumerate_eq_zip Let_def)
  have 2: "persisted_after ex_bare_row ''db'' [''db'' \<mapsto> \<lparr>columns = [], rows = [(0, [])]\<rparr>]
       = [''db'' \<mapsto> \<lparr>columns = [], rows = [(0, []), (1, [])]\<rparr>]"
    by (simp add: persisted_after_def update_db_def merge_frames_def drop_duplicates_def
        empty_frame_def concat_frames_def reset_index_def union_columns_def reindex_def
        ex_bare_row_def enumerate_eq_zip Let_def numeral_2_eq_2)
  have 3: "[''db'' \<mapsto> \<lparr>columns = [], rows = [(0::nat, [] :: nat option list), (1, [])]\<rparr>]
       \<noteq> [''db'' \<mapsto> \<lparr>columns = [], rows = [(0, [])]\<rparr>]"
  proof
    assume "[''db'' \<mapsto> \<lparr>columns = [], rows = [(0::nat, [] :: nat option list), (1, [])]\<rparr>]
       = [''db'' \<mapsto> \<lparr>columns = [], rows = [(0, [])]\<rparr>]"
    then have "\<lparr>columns = [], rows = [(0::nat, [] :: nat option list), (1, [])]\<rparr>
       = \<lparr>columns = [], rows = [(0, [])]\<rparr>"
      by (rule map_upd_eqD1)
    then show False by simp
  qed
  have wf: "wf_frame ex_bare \<and> wf_frame ex_bare_row"
    by (simp add: wf_frame_def ex_bare_def ex_bare_row_def)
  show ?thesis using wf 3 unfolding 1 2 by simp
qed

text \<open>
  Claim C8, as amended. For tables with unique column labels, the merge fails with
  \<^verbatim>\<open>KeyError\<close> (the schema error of the specification), and writes nothing,
  exactly when the identifier column is absent from both the existing and the new table
  and the two tables together have at least one row and at least one column; in every
  other case, in particular when one of the two tables has the identifier column, the
  merge succeeds.
\<close>

theorem update_db_KeyError_iff_no_ID:
  assumes "store path = Some old" and "wf_frame old" and "wf_frame df"
  shows "if ''ID'' \<notin> set (columns old) \<and> ''ID'' \<notin> set (columns df)
            \<and> (rows old \<noteq> [] \<or> rows df \<noteq> [])
            \<and> (columns old \<noteq> [] \<or> columns df \<noteq> [])
         then update_db df path store = Inl KeyError
         else (\<exists>m. update_db df path store = Inr (store(path \<mapsto> m)))"
proof (cases "''ID'' \<in> set (columns old) \<union> set (columns df)")
  case True
  from merge_frames_rows [OF this] assms(1)
  have "update_db df path store
      = Inr (store(path \<mapsto> \<lparr>columns = union_columns (columns old) (columns df),
                                 rows = enumerate 0 (merged_cells old df)\<rparr>))"
    by (simp add: update_db_merge)
  with True show ?thesis by auto
next
  case False
  show ?thesis
  proof (cases "(rows old \<noteq> [] \<or> rows df \<noteq> []) \<and> (columns old \<noteq> [] \<or> columns df \<noteq> [])")
    case True
    with False have "merge_frames old df = Inl KeyError"
      by (intro merge_frames_KeyError) auto
    with False True assms(1) show ?thesis by (simp add: update_db_merge)
  next
    case empty: False
    then have "(rows old = [] \<and> rows df = []) \<or> (columns old = [] \<and> columns df = [])"
      by auto
    from merge_frames_empty [OF this]
    have "\<exists>m. merge_frames old df = Inr m" by blast
    then have "\<exists>m. update_db df path store = Inr (store(path \<mapsto> m))"
      using assms(1) by (auto simp: update_db_merge)
    with empty show ?thesis by auto
  qed
qed

theorem update_db_KeyError_iff_no_ID_witness:
  "update_db ex_noid ''db'' [''db'' \<mapsto> ex_noid] = Inl KeyError
   \<and> (\<exists>m. update_db ex_new ''db'' [''db'' \<mapsto> ex_old]
             = Inr ([''db'' \<mapsto> ex_old](''db'' \<mapsto> m)))"
proof -
  have 1: "[''db'' \<mapsto> ex_noid] ''db'' = Some ex_noid" by simp
  have 2: "[''db'' \<mapsto> ex_old] ''db'' = Some ex_old" by simp
  have w1: "wf_frame ex_noid" by (simp add: wf_frame_def ex_noid_def)
  have w2: "wf_frame ex_old" by (simp add: wf_frame_def ex_old_def)
  have w3: "wf_frame ex_new" by (simp add: wf_frame_def ex_new_def)
  have a: "''ID'' \<notin> set (columns ex_noid) \<and> rows ex_noid \<noteq> [] \<and> columns ex_noid \<noteq> []"
    by (simp add: ex_noid_def)
  have b: "''ID'' \<in> set (columns ex_old)" by (simp add: ex_old_def)
  show ?thesis
    using update_db_KeyError_iff_no_ID
            [of "[''db'' \<mapsto> ex_noid]" "''db''" ex_noid ex_noid, OF 1 w1 w1]
      update_db_KeyError_iff_no_ID
            [of "[''db'' \<mapsto> ex_old]" "''db''" ex_old ex_new, OF 2 w2 w3] a b
    by simp
qed

text \<open>
  Claim C8 as stated fails when only one table lacks the identifier column: the outer
  join gives the rows of that table a missing identifier and the merge returns a
  table.
\<close>

theorem update_db_one_table_without_ID:
  "wf_frame ex_noid \<and> wf_frame ex_new \<and> wf_frame ex_old
   \<and> ''ID'' \<notin> set (columns ex_noid)
   \<and> update_db ex_new ''db'' [''db'' \<mapsto> ex_noid]
       = Inr [''db'' \<mapsto> \<lparr>columns = [''sex'', ''ID'', ''diet''],
                rows = [(0, [Some 10, None, None]), (1, [None, Some 1, Some 11]),
                        (2, [None, Some 3, Some 31])]\<rparr>]
   \<and> ''ID'' \<notin> set (columns ex_noid)
   \<and> update_db ex_noid ''db'' [''db'' \<mapsto> ex_old]
       = Inr [''db'' \<mapsto> \<lparr>columns = [''ID'', ''sex''],
                rows = [(0, [Some 1, Some 10]), (1, [Some 2, Some 20]),
                        (2, [None, Some 10])]\<rparr>]"
  by (simp add: update_db_def merge_frames_def drop_duplicates_def empty_frame_def
      concat_frames_def
      reset_index_def union_columns_def reindex_def cell_def ex_noid_def ex_new_def ex_old_def
      enumerate_eq_zip Let_def numeral_2_eq_2 wf_frame_def)




end
